theory Spec2Isabelle
  imports Main "HOL-Library.Word"
begin

section \<open>The long-polling client of package longpoll\<close>

text \<open>
  This theory embeds \<^verbatim>\<open>src/longpoll/longpoll.go\<close>: the constructor
  \<^verbatim>\<open>NewWithConfig\<close>, one exchange (\<^verbatim>\<open>makeRequest\<close>), the retry loop
  (\<^verbatim>\<open>pollLoop\<close>), and the registry of running sessions kept by \<^verbatim>\<open>Poll\<close>.

  The loop talks to collaborators the package does not implement: the context, the body
  builder, \<^verbatim>\<open>net/http\<close>, the caller's handler and the timer. What they answer in one
  pass through the loop body is the record \<open>attempt\<close>; a run of the loop consumes a list of
  such records, one per pass, and reports what it did as a list of \<open>action\<close>s. A list that
  ends before the loop returns leaves the loop \<open>Running\<close>.
\<close>

subsection \<open>Errors\<close>

text \<open>
  Go error values. \<open>Opaque\<close> is an error made by a collaborator, \<open>Errorf\<close> the result of
  \<^verbatim>\<open>fmt.Errorf\<close> without \<^verbatim>\<open>%w\<close> (only its message), and \<open>Wrapf p e\<close> the result of
  \<^verbatim>\<open>fmt.Errorf("p: %w", e)\<close>, which wraps \<open>e\<close>.
\<close>

datatype error =
    Canceled
  | DeadlineExceeded
  | Opaque string
  | Errorf string
  | Wrapf string error

fun Error :: "error \<Rightarrow> string" where
  "Error Canceled = ''context canceled''"
| "Error DeadlineExceeded = ''context deadline exceeded''"
| "Error (Opaque m) = m"
| "Error (Errorf m) = m"
| "Error (Wrapf p e) = p @ '': '' @ Error e"

text \<open>The verb \<^verbatim>\<open>%d\<close> of \<^verbatim>\<open>fmt\<close>: a decimal numeral, with a minus sign below zero.\<close>

definition digit :: "nat \<Rightarrow> char" where
  "digit d = (if d < 10 then ''0123456789'' ! d else CHR ''?'')"

function utoa :: "nat \<Rightarrow> string" where
  "utoa n = (if n < 10 then [digit n] else utoa (n div 10) @ [digit (n mod 10)])"
  by pat_completeness auto
termination
  by (relation "measure id") auto

declare utoa.simps [simp del]

definition itoa :: "int \<Rightarrow> string" where
  "itoa i = (if i < 0 then CHR ''-'' # utoa (nat (- i)) else utoa (nat i))"

subsection \<open>Configuration and client\<close>

text \<open>
  Go's \<^verbatim>\<open>int\<close> and \<^verbatim>\<open>time.Duration\<close> are 64-bit two's complement values; comparisons
  on them are the signed ones (\<open>\<le>s\<close>, \<open><s\<close>) and \<open>+\<close> wraps. The field \<open>BodyBuilder\<close>
  records whether the function is non-nil (what it returns is part of \<open>attempt\<close>), a nil
  pointer or map is \<open>None\<close>. The logger only writes log lines and is left out.
\<close>

type_synonym go_int = "64 word"
type_synonym duration = "64 word"

definition Second :: duration where
  "Second = 1000000000"

record http_Client =
  Timeout :: duration

record Config =
  PollTimeout :: duration
  RetryDelay :: duration
  MaxRetries :: go_int
  HTTPClient :: "http_Client option"
  Headers :: "(string \<rightharpoonup> string) option"
  Method :: string
  BodyBuilder :: bool

text \<open>A \<^verbatim>\<open>*pollContext\<close> is the address of the allocated struct.\<close>

type_synonym pollContext = nat

record Client =
  config :: Config
  httpClient :: http_Client
  headers :: "string \<rightharpoonup> string"
  active :: "pollContext set"

definition NewWithConfig :: "Config \<Rightarrow> Client" where
  "NewWithConfig cfg0 =
    (let cfg1 = (if PollTimeout cfg0 = 0 then cfg0\<lparr>PollTimeout := 60 * Second\<rparr> else cfg0);
         cfg2 = (if RetryDelay cfg1 = 0 then cfg1\<lparr>RetryDelay := 1 * Second\<rparr> else cfg1);
         cfg3 = (if MaxRetries cfg2 = 0 then cfg2\<lparr>MaxRetries := - 1\<rparr> else cfg2);
         cfg4 = (if Method cfg3 = [] then cfg3\<lparr>Method := ''GET''\<rparr> else cfg3);
         hc = (case HTTPClient cfg4 of
                 None \<Rightarrow> \<lparr>Timeout = PollTimeout cfg4\<rparr>
               | Some h \<Rightarrow> if Timeout h = 0 then h\<lparr>Timeout := PollTimeout cfg4\<rparr> else h);
         cfg5 = cfg4\<lparr>HTTPClient := Some hc\<rparr>;
         hs = (case Headers cfg5 of None \<Rightarrow> Map.empty | Some m \<Rightarrow> m);
         cfg6 = cfg5\<lparr>Headers := Some hs\<rparr>
     in \<lparr>config = cfg6, httpClient = hc, headers = hs, active = {}\<rparr>)"

subsection \<open>One pass of the loop: what the collaborators answer, what the client does\<close>

text \<open>
  \<open>ctx_before\<close>, \<open>ctx_sleep\<close> and \<open>ctx_after\<close> are what the three \<^verbatim>\<open>select\<close>
  statements of \<^verbatim>\<open>pollLoop\<close> see: \<open>Some e\<close> when the case \<^verbatim>\<open><-ctx.Done()\<close> is taken,
  \<open>e\<close> being \<^verbatim>\<open>ctx.Err()\<close>; \<open>None\<close> when the \<^verbatim>\<open>default\<close> case, or the timer of the
  retry delay, is taken. \<open>body_builder\<close> and \<open>new_request\<close> are the errors of
  \<^verbatim>\<open>BodyBuilder()\<close> and \<^verbatim>\<open>http.NewRequestWithContext\<close>, \<open>do_result\<close> the result of
  \<^verbatim>\<open>httpClient.Do\<close> (a response is its status code and the bytes \<^verbatim>\<open>io.ReadAll\<close> gets
  from its body), \<open>handler_result\<close> the three values the handler returns.

  An \<open>action\<close> is a call the client makes: \<open>MakeRequest url\<close> the call of
  \<^verbatim>\<open>makeRequest\<close>, \<open>BuildBody\<close> of the body builder, \<open>Do method url\<close> of
  \<^verbatim>\<open>httpClient.Do\<close>, \<open>Recv status\<close> its returning a response, \<open>ReadAll\<close> and \<open>Close\<close>
  the calls on the response body, \<open>Handler\<close> the call of the handler, \<open>After d\<close> the
  \<^verbatim>\<open>select\<close> on \<^verbatim>\<open>time.After(d)\<close>. The statements of \<^verbatim>\<open>makeRequest\<close> that fill the
  header of the request decide nothing in the loop and are left out.
\<close>

datatype round_trip = TransportError error | Response int string

record attempt =
  ctx_before :: "error option"
  body_builder :: "error option"
  new_request :: "error option"
  do_result :: round_trip
  handler_result :: "string \<times> bool \<times> error option"
  ctx_sleep :: "error option"
  ctx_after :: "error option"

datatype action =
    MakeRequest string
  | BuildBody
  | Do string string
  | Recv int
  | ReadAll
  | Close
  | Handler
  | After duration

definition makeRequest :: "Client \<Rightarrow> string \<Rightarrow> attempt \<Rightarrow> (error + int \<times> string) \<times> action list" where
  "makeRequest c url a =
    (let built = (if BodyBuilder (config c) then [BuildBody] else []);
         berr = (if BodyBuilder (config c) then body_builder a else None)
     in case berr of
          Some err \<Rightarrow> (Inl (Wrapf ''build request body'' err), MakeRequest url # built)
        | None \<Rightarrow>
           (let method = (if Method (config c) = [] then ''GET'' else Method (config c))
            in case new_request a of
                 Some err \<Rightarrow> (Inl (Wrapf ''create request'' err), MakeRequest url # built)
               | None \<Rightarrow>
                  (case do_result a of
                     TransportError err \<Rightarrow>
                       (Inl (Wrapf ''http request'' err), MakeRequest url # built @ [Do method url])
                   | Response status body \<Rightarrow>
                       if status < 200 \<or> status \<ge> 300
                       then (Inl (Errorf (''http error '' @ itoa status @ '': '' @ body)),
                             MakeRequest url # built @ [Do method url, Recv status, ReadAll, Close])
                       else (Inr (status, body),
                             MakeRequest url # built @ [Do method url, Recv status]))))"

subsection \<open>The loop\<close>

record loop_state =
  retries :: go_int
  currentURL :: string

datatype status = Running loop_state | Returned "error option"

text \<open>The body of the \<^verbatim>\<open>for\<close> statement of \<^verbatim>\<open>pollLoop\<close>.\<close>

definition iteration :: "Client \<Rightarrow> loop_state \<Rightarrow> attempt \<Rightarrow> status \<times> action list" where
  "iteration c s a =
    (case ctx_before a of
       Some e \<Rightarrow> (Returned (Some e), [])
     | None \<Rightarrow>
        (case makeRequest c (currentURL s) a of
           (Inl err, tr) \<Rightarrow>
             if 0 \<le>s MaxRetries (config c) \<and> MaxRetries (config c) \<le>s retries s
             then (Returned (Some (Wrapf ''max retries exceeded'' err)), tr)
             else (case ctx_sleep a of
                     Some e \<Rightarrow> (Returned (Some e), tr @ [After (RetryDelay (config c))])
                   | None \<Rightarrow> (Running (s\<lparr>retries := retries s + 1\<rparr>),
                              tr @ [After (RetryDelay (config c))]))
         | (Inr resp, tr) \<Rightarrow>
            (case handler_result a of
               (nextURL, shouldContinue, Some herr) \<Rightarrow>
                 (Returned (Some (Wrapf ''handler error'' herr)), tr @ [Handler, Close])
             | (nextURL, shouldContinue, None) \<Rightarrow>
                 (let s' = \<lparr>retries = 0,
                            currentURL = (if nextURL \<noteq> [] then nextURL else currentURL s)\<rparr>
                  in if \<not> shouldContinue then (Returned None, tr @ [Handler, Close])
                     else (case ctx_after a of
                             Some e \<Rightarrow> (Returned (Some e), tr @ [Handler, Close])
                           | None \<Rightarrow> (Running s', tr @ [Handler, Close]))))))"

fun pollLoop_from :: "Client \<Rightarrow> loop_state \<Rightarrow> attempt list \<Rightarrow> status \<times> action list" where
  "pollLoop_from c s [] = (Running s, [])"
| "pollLoop_from c s (a # as) =
    (case iteration c s a of
       (Returned r, tr) \<Rightarrow> (Returned r, tr)
     | (Running s', tr) \<Rightarrow>
         (case pollLoop_from c s' as of (st, tr') \<Rightarrow> (st, tr @ tr')))"

definition pollLoop :: "Client \<Rightarrow> string \<Rightarrow> attempt list \<Rightarrow> status \<times> action list" where
  "pollLoop c url script = pollLoop_from c \<lparr>retries = 0, currentURL = url\<rparr> script"

text \<open>The attempts of a run are its calls of \<^verbatim>\<open>makeRequest\<close>.\<close>

fun attempts :: "action list \<Rightarrow> nat" where
  "attempts [] = 0"
| "attempts (MakeRequest u # tr) = Suc (attempts tr)"
| "attempts (x # tr) = attempts tr"

text \<open>The addresses the attempts of a run were made to, in order.\<close>

fun targets :: "action list \<Rightarrow> string list" where
  "targets [] = []"
| "targets (MakeRequest u # tr) = u # targets tr"
| "targets (x # tr) = targets tr"

text \<open>
  An attempt that fails without the context being done at the checkpoints around it:
  the \<^verbatim>\<open>default\<close> case of the first \<^verbatim>\<open>select\<close>, an error from \<^verbatim>\<open>makeRequest\<close>,
  and the timer winning the \<^verbatim>\<open>select\<close> of the retry delay.
\<close>

definition quiet_failure :: "Client \<Rightarrow> string \<Rightarrow> attempt \<Rightarrow> bool" where
  "quiet_failure c url a \<longleftrightarrow>
     ctx_before a = None \<and> ctx_sleep a = None \<and> isl (fst (makeRequest c url a))"

text \<open>
  Reading a trace with a flag that says whether a response body is open: a response
  arrives only when none is open, the handler and \<^verbatim>\<open>io.ReadAll\<close> run on an open body,
  \<^verbatim>\<open>Close\<close> closes an open body, no attempt starts while a body is open, and none is open
  at the end.
\<close>

fun released :: "bool \<Rightarrow> action list \<Rightarrow> bool" where
  "released opn [] = (\<not> opn)"
| "released opn (Recv st # tr) = (\<not> opn \<and> released True tr)"
| "released opn (Close # tr) = (opn \<and> released False tr)"
| "released opn (Handler # tr) = (opn \<and> released opn tr)"
| "released opn (ReadAll # tr) = (opn \<and> released opn tr)"
| "released opn (MakeRequest u # tr) = (\<not> opn \<and> released opn tr)"
| "released opn (x # tr) = released opn tr"

subsection \<open>The registry of running sessions\<close>

text \<open>
  \<^verbatim>\<open>Poll\<close> adds its \<^verbatim>\<open>pollContext\<close> to \<^verbatim>\<open>c.active\<close> under the lock, calls
  \<^verbatim>\<open>pollLoop\<close>, and its deferred function deletes the entry under the lock when
  \<^verbatim>\<open>pollLoop\<close> has returned. While the loop is \<open>Running\<close> the deferred function has not
  run.
\<close>

definition register :: "Client \<Rightarrow> pollContext \<Rightarrow> Client" where
  "register c pc = c\<lparr>active := insert pc (active c)\<rparr>"

definition deregister :: "Client \<Rightarrow> pollContext \<Rightarrow> Client" where
  "deregister c pc = c\<lparr>active := active c - {pc}\<rparr>"

definition ActiveCount :: "Client \<Rightarrow> nat" where
  "ActiveCount c = card (active c)"

definition Poll :: "Client \<Rightarrow> pollContext \<Rightarrow> string \<Rightarrow> attempt list \<Rightarrow> Client \<times> status \<times> action list" where
  "Poll c pc url script =
    (let c1 = register c pc
     in case pollLoop c1 url script of
          (Running s, tr) \<Rightarrow> (c1, Running s, tr)
        | (Returned r, tr) \<Rightarrow> (deregister c1 pc, Returned r, tr))"

text \<open>
  Sessions running side by side touch \<^verbatim>\<open>c.active\<close> only in those two critical
  sections, so a history of one client is the sequence in which the sections ran:
  \<open>Enter pc\<close> for the registration by the call of \<^verbatim>\<open>Poll\<close> that allocated \<open>pc\<close>,
  \<open>Leave pc\<close> for the deferred deletion by the same call. In a history that can occur,
  an allocation is entered once, and left once and only after it was entered.
\<close>

datatype event = Enter pollContext | Leave pollContext

fun client_step :: "Client \<Rightarrow> event \<Rightarrow> Client" where
  "client_step c (Enter pc) = register c pc"
| "client_step c (Leave pc) = deregister c pc"

fun run_events :: "Client \<Rightarrow> event list \<Rightarrow> Client" where
  "run_events c [] = c"
| "run_events c (e # es) = run_events (client_step c e) es"

fun possible :: "event list \<Rightarrow> event list \<Rightarrow> bool" where
  "possible past [] = True"
| "possible past (Enter pc # es) =
     (Enter pc \<notin> set past \<and> possible (past @ [Enter pc]) es)"
| "possible past (Leave pc # es) =
     (Enter pc \<in> set past \<and> Leave pc \<notin> set past \<and> possible (past @ [Leave pc]) es)"

fun started :: "event list \<Rightarrow> nat" where
  "started [] = 0"
| "started (Enter pc # es) = Suc (started es)"
| "started (Leave pc # es) = started es"

fun returned :: "event list \<Rightarrow> nat" where
  "returned [] = 0"
| "returned (Enter pc # es) = returned es"
| "returned (Leave pc # es) = Suc (returned es)"

subsection \<open>Example configurations and environments\<close>

definition retry_config :: "go_int \<Rightarrow> Config" where
  "retry_config n =
     \<lparr>PollTimeout = 0, RetryDelay = 50000000, MaxRetries = n, HTTPClient = None,
      Headers = None, Method = [], BodyBuilder = False\<rparr>"

text \<open>The endpoint answers 500 with the body \<open>boom\<close>; nothing is cancelled.\<close>

definition status_500 :: attempt where
  "status_500 =
     \<lparr>ctx_before = None, body_builder = None, new_request = None,
      do_result = Response 500 ''boom'', handler_result = ([], True, None),
      ctx_sleep = None, ctx_after = None\<rparr>"

text \<open>The endpoint answers 200 and the handler returns the given values.\<close>

definition status_200 :: "string \<times> bool \<times> error option \<Rightarrow> attempt" where
  "status_200 h =
     \<lparr>ctx_before = None, body_builder = None, new_request = None,
      do_result = Response 200 ''{}'', handler_result = h,
      ctx_sleep = None, ctx_after = None\<rparr>"

section \<open>Properties\<close>

subsection \<open>Auxiliary facts about the loop\<close>


lemma attempts_append: "attempts (xs @ ys) = attempts xs + attempts ys"
  by (induction xs rule: attempts.induct) simp_all

lemma attempts_makeRequest: "attempts (snd (makeRequest c url a)) = 1"
  by (simp add: makeRequest_def Let_def attempts_append split: option.splits round_trip.splits)

lemma MaxRetries_NewWithConfig:
  "MaxRetries (config (NewWithConfig cfg)) = (if MaxRetries cfg = 0 then - 1 else MaxRetries cfg)"
  by (simp add: NewWithConfig_def Let_def)

lemma iteration_retry:
  assumes "quiet_failure c (currentURL s) a"
    and "\<not> (0 \<le>s MaxRetries (config c) \<and> MaxRetries (config c) \<le>s retries s)"
  shows "iteration c s a =
           (Running (s\<lparr>retries := retries s + 1\<rparr>),
            snd (makeRequest c (currentURL s) a) @ [After (RetryDelay (config c))])"
  using assms
  by (cases "makeRequest c (currentURL s) a"; cases "fst (makeRequest c (currentURL s) a)")
     (simp_all add: quiet_failure_def iteration_def)


lemma fail_run_unlimited:
  assumes "\<forall>a\<in>set script. quiet_failure c (currentURL s) a"
    and "MaxRetries (config c) <s 0"
  shows "\<exists>s' tr. pollLoop_from c s script = (Running s', tr) \<and> currentURL s' = currentURL s
            \<and> retries s' = retries s + of_nat (length script)
            \<and> attempts tr = length script"
  using assms
proof (induction script arbitrary: s)
  case Nil
  then show ?case by simp
next
  case (Cons a script)
  have nb: "\<not> (0 \<le>s MaxRetries (config c) \<and> MaxRetries (config c) \<le>s retries s)"
    using Cons.prems(2) by (simp add: word_sle_eq word_sless_alt)
  have it: "iteration c s a =
           (Running (s\<lparr>retries := retries s + 1\<rparr>),
            snd (makeRequest c (currentURL s) a) @ [After (RetryDelay (config c))])"
    using iteration_retry[OF _ nb] Cons.prems(1) by simp
  obtain s' tr where r: "pollLoop_from c (s\<lparr>retries := retries s + 1\<rparr>) script = (Running s', tr)"
     "currentURL s' = currentURL s" "retries s' = retries s + 1 + of_nat (length script)"
     "attempts tr = length script"
    using Cons.IH[of "s\<lparr>retries := retries s + 1\<rparr>"] Cons.prems by auto
  show ?case
    using it r by (simp add: attempts_append attempts_makeRequest)
qed




lemma targets_append: "targets (xs @ ys) = targets xs @ targets ys"
  by (induction xs rule: targets.induct) simp_all

lemma targets_makeRequest: "targets (snd (makeRequest c url a)) = [url]"
  by (simp add: makeRequest_def Let_def targets_append split: option.splits round_trip.splits)

lemma iteration_cancelled_before:
  "ctx_before a = Some e \<Longrightarrow> iteration c s a = (Returned (Some e), [])"
  by (simp add: iteration_def)

lemma iteration_success:
  assumes "ctx_before a = None"
    and "fst (makeRequest c (currentURL s) a) = Inr resp"
    and "handler_result a = (nextURL, shouldContinue, None)"
  shows "iteration c s a =
           (if \<not> shouldContinue then Returned None
            else (case ctx_after a of
                    Some e \<Rightarrow> Returned (Some e)
                  | None \<Rightarrow> Running \<lparr>retries = 0,
                      currentURL = (if nextURL \<noteq> [] then nextURL else currentURL s)\<rparr>),
            snd (makeRequest c (currentURL s) a) @ [Handler, Close])"
  using assms
  by (cases "makeRequest c (currentURL s) a")
     (simp add: iteration_def Let_def split: option.splits)

lemma iteration_handler_error:
  assumes "ctx_before a = None"
    and "fst (makeRequest c (currentURL s) a) = Inr resp"
    and "handler_result a = (nextURL, shouldContinue, Some herr)"
  shows "iteration c s a =
           (Returned (Some (Wrapf ''handler error'' herr)),
            snd (makeRequest c (currentURL s) a) @ [Handler, Close])"
  using assms
  by (cases "makeRequest c (currentURL s) a") (simp add: iteration_def)

lemma iteration_failure:
  assumes "ctx_before a = None"
    and "fst (makeRequest c (currentURL s) a) = Inl err"
  shows "iteration c s a =
           (if 0 \<le>s MaxRetries (config c) \<and> MaxRetries (config c) \<le>s retries s
            then (Returned (Some (Wrapf ''max retries exceeded'' err)),
                  snd (makeRequest c (currentURL s) a))
            else (case ctx_sleep a of
                    Some e \<Rightarrow> Returned (Some e)
                  | None \<Rightarrow> Running (s\<lparr>retries := retries s + 1\<rparr>),
                  snd (makeRequest c (currentURL s) a) @ [After (RetryDelay (config c))]))"
  using assms
  by (cases "makeRequest c (currentURL s) a")
     (simp add: iteration_def split: option.splits)

lemma pollLoop_from_Returned:
  "iteration c s a = (Returned r, tr) \<Longrightarrow> pollLoop_from c s (a # rest) = (Returned r, tr)"
  by simp

lemma pollLoop_from_Running:
  "iteration c s a = (Running s', tr) \<Longrightarrow>
     pollLoop_from c s (a # rest) =
       (fst (pollLoop_from c s' rest), tr @ snd (pollLoop_from c s' rest))"
  by (simp split: prod.splits)

lemma targets_iteration:
  assumes "ctx_before a = None"
  shows "targets (snd (iteration c s a)) = [currentURL s]"
proof (cases "makeRequest c (currentURL s) a")
  case (Pair r tr)
  then have tr: "targets tr = [currentURL s]"
    using targets_makeRequest[of c "currentURL s" a] by simp
  show ?thesis
    using assms Pair tr
    by (cases r; cases "handler_result a")
       (auto simp: iteration_def targets_append Let_def split: option.splits)
qed

lemma attempts_iteration:
  assumes "ctx_before a = None"
  shows "attempts (snd (iteration c s a)) = 1"
proof (cases "makeRequest c (currentURL s) a")
  case (Pair r tr)
  then have tr: "attempts tr = 1"
    using attempts_makeRequest[of c "currentURL s" a] by simp
  show ?thesis
    using assms Pair tr
    by (cases r; cases "handler_result a")
       (auto simp: iteration_def attempts_append Let_def split: option.splits)
qed

lemma targets_pollLoop_from_Cons:
  assumes "ctx_before a = None"
  shows "\<exists>us. targets (snd (pollLoop_from c s (a # rest))) = currentURL s # us"
proof (cases "iteration c s a")
  case (Pair st tr)
  then have tr: "targets tr = [currentURL s]"
    using targets_iteration[OF assms, of c s] by simp
  show ?thesis
    using Pair tr by (cases st) (simp_all add: targets_append split: prod.splits)
qed

lemma Do_makeRequest:
  "Do m u \<in> set (snd (makeRequest c url a)) \<Longrightarrow> u = url"
  by (auto simp: makeRequest_def Let_def split: option.splits round_trip.splits if_splits)

lemma Handler_makeRequest: "Handler \<notin> set (snd (makeRequest c url a))"
  by (simp add: makeRequest_def Let_def split: option.splits round_trip.splits)

lemma makeRequest_non_success:
  assumes "do_result a = Response status body"
    and "status < 200 \<or> 300 \<le> status"
    and "\<not> BodyBuilder (config c) \<or> body_builder a = None"
    and "new_request a = None"
  shows "makeRequest c url a =
           (Inl (Errorf (''http error '' @ itoa status @ '': '' @ body)),
            MakeRequest url # (if BodyBuilder (config c) then [BuildBody] else []) @
              [Do (if Method (config c) = [] then ''GET'' else Method (config c)) url,
               Recv status, ReadAll, Close])"
  using assms by (auto simp: makeRequest_def Let_def)

lemma makeRequest_success_trace:
  assumes "fst (makeRequest c url a) = Inr resp"
  shows "\<exists>pre. snd (makeRequest c url a) = pre @ [Recv (fst resp)]
           \<and> do_result a = Response (fst resp) (snd resp) \<and> 200 \<le> fst resp \<and> fst resp < 300"
  using assms
  by (auto simp: makeRequest_def Let_def split: option.splits round_trip.splits if_splits)

lemma released_append:
  "released opn xs \<Longrightarrow> released False ys \<Longrightarrow> released opn (xs @ ys)"
  by (induction opn xs rule: released.induct) auto

lemma released_makeRequest_Inl:
  "fst (makeRequest c url a) = Inl e \<Longrightarrow> released False (snd (makeRequest c url a) @ ys) = released False ys"
  by (auto simp: makeRequest_def Let_def split: option.splits round_trip.splits if_splits)

lemma released_makeRequest_Inr:
  "fst (makeRequest c url a) = Inr r \<Longrightarrow> released False (snd (makeRequest c url a) @ ys) = released True ys"
  by (auto simp: makeRequest_def Let_def split: option.splits round_trip.splits if_splits)

lemma released_iteration: "released False (snd (iteration c s a))"
proof (cases "ctx_before a")
  case (Some e)
  then show ?thesis by (simp add: iteration_cancelled_before)
next
  case None
  show ?thesis
  proof (cases "fst (makeRequest c (currentURL s) a)")
    case (Inl err)
    show ?thesis
      using released_makeRequest_Inl[OF Inl, of "[]"]
        released_makeRequest_Inl[OF Inl, of "[After (RetryDelay (config c))]"]
      by (simp add: iteration_failure[OF None Inl] split: option.splits)
  next
    case (Inr resp)
    obtain nextURL shouldContinue herr where hr: "handler_result a = (nextURL, shouldContinue, herr)"
      by (cases "handler_result a") auto
    have "snd (iteration c s a) = snd (makeRequest c (currentURL s) a) @ [Handler, Close]"
    proof (cases herr)
      case None': None
      then show ?thesis using iteration_success[OF None Inr, of nextURL shouldContinue] hr by simp
    next
      case (Some x)
      then show ?thesis using iteration_handler_error[OF None Inr, of nextURL shouldContinue x] hr by simp
    qed
    then show ?thesis
      using released_makeRequest_Inr[OF Inr, of "[Handler, Close]"] by simp
  qed
qed

lemma released_pollLoop_from: "released False (snd (pollLoop_from c s script))"
proof (induction script arbitrary: s)
  case Nil
  then show ?case by simp
next
  case (Cons a script)
  obtain st tr where it: "iteration c s a = (st, tr)"
    by (cases "iteration c s a") auto
  then have tr: "released False tr"
    using released_iteration[of c s a] by simp
  show ?case
  proof (cases st)
    case (Running s')
    then show ?thesis
      using it tr Cons.IH[of s'] by (auto simp: released_append split: prod.splits)
  next
    case (Returned r)
    then show ?thesis using it tr by simp
  qed
qed

subsection \<open>Auxiliary facts about the registry\<close>

lemma started_append: "started (xs @ ys) = started xs + started ys"
  by (induction xs rule: started.induct) simp_all

lemma returned_append: "returned (xs @ ys) = returned xs + returned ys"
  by (induction xs rule: returned.induct) simp_all

lemma config_active: "config (c\<lparr>active := A\<rparr>) = config c"
  by simp

lemma makeRequest_active: "makeRequest (c\<lparr>active := A\<rparr>) url a = makeRequest c url a"
  unfolding makeRequest_def config_active ..

lemma iteration_active: "iteration (c\<lparr>active := A\<rparr>) s a = iteration c s a"
  unfolding iteration_def makeRequest_active config_active ..

lemma pollLoop_from_active: "pollLoop_from (c\<lparr>active := A\<rparr>) s script = pollLoop_from c s script"
  by (induction script arbitrary: s)
     (simp_all add: iteration_active split: prod.splits status.splits)

lemma run_events_invariant:
  assumes "possible past evs"
    and "finite (active c)"
    and "active c = {pc. Enter pc \<in> set past \<and> Leave pc \<notin> set past}"
    and "\<forall>pc. Leave pc \<in> set past \<longrightarrow> Enter pc \<in> set past"
    and "card (active c) + returned past = started past"
  shows "active (run_events c evs) =
           {pc. Enter pc \<in> set (past @ evs) \<and> Leave pc \<notin> set (past @ evs)}
       \<and> card (active (run_events c evs)) + returned (past @ evs) = started (past @ evs)"
  using assms
proof (induction evs arbitrary: past c)
  case Nil
  then show ?case by simp
next
  case (Cons e evs)
  show ?case
  proof (cases e)
    case (Enter pc)
    let ?c = "register c pc" and ?past = "past @ [Enter pc]"
    from Cons.prems(1) Enter have new: "Enter pc \<notin> set past" and p: "possible ?past evs"
      by simp_all
    have notin: "pc \<notin> active c"
      using new Cons.prems(3) by simp
    have noleave: "Leave pc \<notin> set past"
      using new Cons.prems(4) by blast
    have f: "finite (active ?c)"
      using Cons.prems(2) by (simp add: register_def)
    have a: "active ?c = {q. Enter q \<in> set ?past \<and> Leave q \<notin> set ?past}"
      using Cons.prems(3) noleave by (auto simp: register_def)
    have l: "\<forall>q. Leave q \<in> set ?past \<longrightarrow> Enter q \<in> set ?past"
      using Cons.prems(4) by auto
    have k: "card (active ?c) + returned ?past = started ?past"
      using Cons.prems(2,5) notin by (simp add: register_def started_append returned_append)
    have eq1: "run_events c (e # evs) = run_events ?c evs"
      unfolding Enter by simp
    have eq2: "past @ e # evs = ?past @ evs"
      unfolding Enter by simp
    show ?thesis
      unfolding eq1 eq2 by (rule Cons.IH[OF p f a l k])
  next
    case (Leave pc)
    let ?c = "deregister c pc" and ?past = "past @ [Leave pc]"
    from Cons.prems(1) Leave have ent: "Enter pc \<in> set past" and nl: "Leave pc \<notin> set past"
      and p: "possible ?past evs"
      by simp_all
    have isin: "pc \<in> active c"
      using ent nl Cons.prems(3) by simp
    have f: "finite (active ?c)"
      using Cons.prems(2) by (simp add: deregister_def)
    have a: "active ?c = {q. Enter q \<in> set ?past \<and> Leave q \<notin> set ?past}"
      using Cons.prems(3) by (auto simp: deregister_def)
    have l: "\<forall>q. Leave q \<in> set ?past \<longrightarrow> Enter q \<in> set ?past"
      using Cons.prems(4) ent by auto
    have "0 < card (active c)"
      using isin Cons.prems(2) by (auto simp: card_gt_0_iff)
    then have k: "card (active ?c) + returned ?past = started ?past"
      using Cons.prems(2,5) isin by (simp add: deregister_def started_append returned_append)
    have eq1: "run_events c (e # evs) = run_events ?c evs"
      unfolding Leave by simp
    have eq2: "past @ e # evs = ?past @ evs"
      unfolding Leave by simp
    show ?thesis
      unfolding eq1 eq2 by (rule Cons.IH[OF p f a l k])
  qed
qed

subsection \<open>The example environments, evaluated\<close>

lemma itoa_500: "itoa 500 = ''500''"
  by (simp add: itoa_def digit_def utoa.simps)

lemma config_retry_config:
  "config (NewWithConfig (retry_config n)) =
     \<lparr>PollTimeout = 60 * Second, RetryDelay = 50000000,
      MaxRetries = (if n = 0 then - 1 else n),
      HTTPClient = Some \<lparr>Timeout = 60 * Second\<rparr>, Headers = Some Map.empty,
      Method = ''GET'', BodyBuilder = False\<rparr>"
  by (simp add: NewWithConfig_def retry_config_def Let_def)

lemma makeRequest_status_500:
  "config c = \<lparr>PollTimeout = pt, RetryDelay = rd, MaxRetries = m, HTTPClient = hc, Headers = hs,
      Method = ''GET'', BodyBuilder = False\<rparr> \<Longrightarrow>
   makeRequest c url status_500 =
     (Inl (Errorf ''http error 500: boom''),
      [MakeRequest url, Do ''GET'' url, Recv 500, ReadAll, Close])"
  by (simp add: makeRequest_def status_500_def itoa_500)

lemma iteration_status_500:
  "config c = \<lparr>PollTimeout = pt, RetryDelay = rd, MaxRetries = m, HTTPClient = hc, Headers = hs,
      Method = ''GET'', BodyBuilder = False\<rparr> \<Longrightarrow>
   iteration c s status_500 =
     (if 0 \<le>s m \<and> m \<le>s retries s
      then (Returned (Some (Wrapf ''max retries exceeded'' (Errorf ''http error 500: boom''))),
            [MakeRequest (currentURL s), Do ''GET'' (currentURL s), Recv 500, ReadAll, Close])
      else (Running (s\<lparr>retries := retries s + 1\<rparr>),
            [MakeRequest (currentURL s), Do ''GET'' (currentURL s), Recv 500, ReadAll, Close, After rd]))"
  using makeRequest_status_500[of c pt rd m hc hs "currentURL s"]
  by (simp add: iteration_def) (simp add: status_500_def)

lemma quiet_failure_status_500:
  "config c = \<lparr>PollTimeout = pt, RetryDelay = rd, MaxRetries = m, HTTPClient = hc, Headers = hs,
      Method = ''GET'', BodyBuilder = False\<rparr> \<Longrightarrow> quiet_failure c url status_500"
  using makeRequest_status_500[of c pt rd m hc hs url]
  by (simp add: quiet_failure_def) (simp add: status_500_def)

lemma makeRequest_status_200:
  "config c = \<lparr>PollTimeout = pt, RetryDelay = rd, MaxRetries = m, HTTPClient = hc, Headers = hs,
      Method = ''GET'', BodyBuilder = False\<rparr> \<Longrightarrow>
   makeRequest c url (status_200 h) =
     (Inr (200, ''{}''), [MakeRequest url, Do ''GET'' url, Recv 200])"
  by (simp add: makeRequest_def status_200_def)

subsection \<open>Retry budget\<close>




text \<open>
  Claim C2. \<^verbatim>\<open>NewWithConfig\<close> never yields a client whose \<^verbatim>\<open>MaxRetries\<close> is 0: the value
  0 becomes \<open>-1\<close> and every other value is kept. The budget check of the loop needs
  \<^verbatim>\<open>MaxRetries >= 0\<close>, so with a negative \<^verbatim>\<open>MaxRetries\<close> a failed attempt is never
  answered with \<^verbatim>\<open>max retries exceeded\<close> (the pass ends in the retry-delay
  \<^verbatim>\<open>select\<close>), and a session in which every exchange fails and nothing is cancelled is
  still running after any number of attempts.
\<close>

theorem zero_budget_unreachable:
  "MaxRetries (config (NewWithConfig cfg)) \<noteq> 0
   \<and> (MaxRetries cfg = 0 \<longrightarrow> MaxRetries (config (NewWithConfig cfg)) = - 1)
   \<and> (MaxRetries cfg \<noteq> 0 \<longrightarrow> MaxRetries (config (NewWithConfig cfg)) = MaxRetries cfg)
   \<and> (MaxRetries (config c) <s 0 \<and> ctx_before a = None
        \<and> fst (makeRequest c (currentURL s) a) = Inl e \<longrightarrow>
          fst (iteration c s a) =
            (case ctx_sleep a of Some ce \<Rightarrow> Returned (Some ce)
             | None \<Rightarrow> Running (s\<lparr>retries := retries s + 1\<rparr>)))
   \<and> (MaxRetries (config c) <s 0 \<and> (\<forall>a\<in>set script. quiet_failure c url a) \<longrightarrow>
          (\<exists>s tr. pollLoop c url script = (Running s, tr) \<and> attempts tr = length script))"
proof -
  have one: "fst (iteration c s a) =
            (case ctx_sleep a of Some ce \<Rightarrow> Returned (Some ce)
             | None \<Rightarrow> Running (s\<lparr>retries := retries s + 1\<rparr>))"
    if "MaxRetries (config c) <s 0" "ctx_before a = None"
       "fst (makeRequest c (currentURL s) a) = Inl e"
  proof -
    have "\<not> 0 \<le>s MaxRetries (config c)"
      using that(1) by (simp add: word_sle_eq word_sless_alt)
    then show ?thesis
      using that(2,3)
      by (cases "makeRequest c (currentURL s) a") (simp add: iteration_def split: option.splits)
  qed
  have many: "\<exists>s tr. pollLoop c url script = (Running s, tr) \<and> attempts tr = length script"
    if "MaxRetries (config c) <s 0" "\<forall>a\<in>set script. quiet_failure c url a"
  proof -
    have "\<forall>a\<in>set script. quiet_failure c (currentURL \<lparr>retries = 0, currentURL = url\<rparr>) a"
      using that(2) by simp
    from fail_run_unlimited[OF this that(1)] show ?thesis
      unfolding pollLoop_def by blast
  qed
  show ?thesis
    using one many by (simp add: MaxRetries_NewWithConfig)
qed

theorem zero_budget_unreachable_witness:
  "MaxRetries (config (NewWithConfig (retry_config 0))) = - 1
   \<and> MaxRetries (config (NewWithConfig (retry_config (- 7)))) = - 7
   \<and> fst (iteration (NewWithConfig (retry_config (- 7))) \<lparr>retries = 9, currentURL = ''http://h/poll''\<rparr> status_500)
       = Running \<lparr>retries = 10, currentURL = ''http://h/poll''\<rparr>
   \<and> (\<exists>s tr. pollLoop (NewWithConfig (retry_config (- 7))) ''http://h/poll'' [status_500, status_500, status_500]
         = (Running s, tr) \<and> attempts tr = 3)"
proof -
  let ?c = "NewWithConfig (retry_config (- 7))"
  let ?s = "\<lparr>retries = 9, currentURL = ''http://h/poll''\<rparr>"
  have m0: "MaxRetries (retry_config 0) = 0" by (simp add: retry_config_def)
  have m7: "MaxRetries (retry_config (- 7)) \<noteq> 0" by (simp add: retry_config_def)
  have m7': "MaxRetries (retry_config (- 7)) = - 7" by (simp add: retry_config_def)
  have neg: "MaxRetries (config ?c) <s 0"
    by (simp add: config_retry_config word_sless_alt)
  have cb: "ctx_before status_500 = None" and cs: "ctx_sleep status_500 = None"
    by (simp_all add: status_500_def)
  have mk: "fst (makeRequest ?c (currentURL ?s) status_500) = Inl (Errorf ''http error 500: boom'')"
    by (simp add: makeRequest_status_500[OF config_retry_config])
  have q: "\<forall>a\<in>set [status_500, status_500, status_500]. quiet_failure ?c ''http://h/poll'' a"
    using quiet_failure_status_500[OF config_retry_config] by simp
  note t0 = zero_budget_unreachable[of "retry_config 0"]
  note t7 = zero_budget_unreachable[of "retry_config (- 7)" ?c status_500 ?s
      "Errorf ''http error 500: boom''" "[status_500, status_500, status_500]" "''http://h/poll''"]
  have a: "MaxRetries (config (NewWithConfig (retry_config 0))) = - 1"
    using t0 m0 by blast
  have b: "MaxRetries (config ?c) = - 7"
    using t7 m7 m7' by simp
  have c: "fst (iteration ?c ?s status_500) = Running \<lparr>retries = 10, currentURL = ''http://h/poll''\<rparr>"
    using t7 neg cb cs mk by simp
  have d: "\<exists>s tr. pollLoop ?c ''http://h/poll'' [status_500, status_500, status_500]
         = (Running s, tr) \<and> attempts tr = 3"
    using t7 neg q by (simp add: eval_nat_numeral)
  show ?thesis
    using a b c d by blast
qed

subsection \<open>The failure counter after a success\<close>



subsection \<open>Cancellation and handler errors\<close>

text \<open>
  Claim C4. If the first \<^verbatim>\<open>select\<close> of a pass finds the context done, the loop returns
  \<^verbatim>\<open>ctx.Err()\<close> and the pass does nothing else: no \<^verbatim>\<open>makeRequest\<close>, no network
  call. If an attempt fails with budget left and the context is done while the loop
  waits for the retry delay, the loop returns \<^verbatim>\<open>ctx.Err()\<close> and makes no further
  attempt, whatever the environment would have answered next.
\<close>

theorem cancellation_checkpoints:
  "(ctx_before a = Some e \<longrightarrow> pollLoop_from c s (a # rest) = (Returned (Some e), []))
   \<and> (ctx_before a = None \<and> fst (makeRequest c (currentURL s) a) = Inl err
        \<and> \<not> (0 \<le>s MaxRetries (config c) \<and> MaxRetries (config c) \<le>s retries s)
        \<and> ctx_sleep a = Some e \<longrightarrow>
          pollLoop_from c s (a # rest) =
            (Returned (Some e),
             snd (makeRequest c (currentURL s) a) @ [After (RetryDelay (config c))])
          \<and> attempts (snd (pollLoop_from c s (a # rest))) = 1)"
proof -
  have A: "pollLoop_from c s (a # rest) = (Returned (Some e), [])" if "ctx_before a = Some e"
    by (rule pollLoop_from_Returned[OF iteration_cancelled_before[OF that]])
  have B: "pollLoop_from c s (a # rest) =
            (Returned (Some e),
             snd (makeRequest c (currentURL s) a) @ [After (RetryDelay (config c))])
          \<and> attempts (snd (pollLoop_from c s (a # rest))) = 1"
    if h: "ctx_before a = None" "fst (makeRequest c (currentURL s) a) = Inl err"
       "\<not> (0 \<le>s MaxRetries (config c) \<and> MaxRetries (config c) \<le>s retries s)"
       "ctx_sleep a = Some e"
  proof -
    have "iteration c s a = (Returned (Some e),
             snd (makeRequest c (currentURL s) a) @ [After (RetryDelay (config c))])"
      using iteration_failure[OF h(1,2)] h(3,4) by simp
    then show ?thesis
      by (simp add: attempts_append attempts_makeRequest)
  qed
  show ?thesis using A B by blast
qed

theorem cancellation_checkpoints_witness:
  "pollLoop_from (NewWithConfig (retry_config 2)) \<lparr>retries = 0, currentURL = ''http://h/poll''\<rparr>
      [status_500\<lparr>ctx_before := Some Canceled\<rparr>, status_500] = (Returned (Some Canceled), [])
   \<and> pollLoop_from (NewWithConfig (retry_config 2)) \<lparr>retries = 0, currentURL = ''http://h/poll''\<rparr>
      [status_500\<lparr>ctx_sleep := Some Canceled\<rparr>, status_500]
     = (Returned (Some Canceled),
        [MakeRequest ''http://h/poll'', Do ''GET'' ''http://h/poll'', Recv 500, ReadAll, Close,
         After 50000000])"
proof -
  let ?c = "NewWithConfig (retry_config 2)"
  let ?s = "\<lparr>retries = 0, currentURL = ''http://h/poll''\<rparr>"
  let ?a = "status_500\<lparr>ctx_before := Some Canceled\<rparr>"
  let ?b = "status_500\<lparr>ctx_sleep := Some Canceled\<rparr>"
  have a: "ctx_before ?a = Some Canceled" by simp
  have mk: "makeRequest ?c (currentURL ?s) ?b = makeRequest ?c (currentURL ?s) status_500"
    by (simp add: makeRequest_def status_500_def)
  have b: "ctx_before ?b = None" "ctx_sleep ?b = Some Canceled"
      "fst (makeRequest ?c (currentURL ?s) ?b) = Inl (Errorf ''http error 500: boom'')"
      "\<not> (0 \<le>s MaxRetries (config ?c) \<and> MaxRetries (config ?c) \<le>s retries ?s)"
    unfolding mk
    by (simp_all add: makeRequest_status_500[OF config_retry_config] config_retry_config word_sle_eq)
       (simp add: status_500_def)
  have A: "pollLoop_from ?c ?s [?a, status_500] = (Returned (Some Canceled), [])"
    using cancellation_checkpoints[of ?a Canceled ?c ?s "[status_500]"] a by blast
  have B: "pollLoop_from ?c ?s [?b, status_500] =
      (Returned (Some Canceled),
       snd (makeRequest ?c (currentURL ?s) ?b) @ [After (RetryDelay (config ?c))])"
    using cancellation_checkpoints[of ?b Canceled ?c ?s "[status_500]" "Errorf ''http error 500: boom''"] b
    by blast
  show ?thesis
    using A B unfolding mk
    by (simp add: makeRequest_status_500[OF config_retry_config] config_retry_config)
qed

text \<open>
  Claim C5. When the handler returns a non-nil error after a successful exchange, the
  loop returns that error wrapped as \<^verbatim>\<open>handler error\<close>, whatever the next address and
  the boolean are; the attempt is the last one.
\<close>

theorem handler_error_stops:
  assumes "ctx_before a = None"
    and "fst (makeRequest c (currentURL s) a) = Inr resp"
    and "handler_result a = (nextURL, shouldContinue, Some herr)"
  shows "pollLoop_from c s (a # rest) =
           (Returned (Some (Wrapf ''handler error'' herr)),
            snd (makeRequest c (currentURL s) a) @ [Handler, Close])
       \<and> attempts (snd (pollLoop_from c s (a # rest))) = 1"
  using pollLoop_from_Returned[OF iteration_handler_error[OF assms]]
  by (simp add: attempts_append attempts_makeRequest)

theorem handler_error_stops_witness:
  "pollLoop (NewWithConfig (retry_config 2)) ''http://h/poll''
      [status_200 (''http://h/next'', True, Some (Opaque ''bad json'')), status_500, status_500]
     = (Returned (Some (Wrapf ''handler error'' (Opaque ''bad json''))),
        [MakeRequest ''http://h/poll'', Do ''GET'' ''http://h/poll'', Recv 200, Handler, Close])"
proof -
  let ?c = "NewWithConfig (retry_config 2)"
  let ?s = "\<lparr>retries = 0, currentURL = ''http://h/poll''\<rparr>"
  let ?a = "status_200 (''http://h/next'', True, Some (Opaque ''bad json''))"
  have h: "ctx_before ?a = None" "fst (makeRequest ?c (currentURL ?s) ?a) = Inr (200, ''{}'')"
      "handler_result ?a = (''http://h/next'', True, Some (Opaque ''bad json''))"
    by (simp_all add: makeRequest_status_200[OF config_retry_config]) (simp_all add: status_200_def)
  from handler_error_stops[OF h, of "[status_500, status_500]"]
  show ?thesis
    by (simp add: pollLoop_def makeRequest_status_200[OF config_retry_config])
qed

subsection \<open>The address of the next attempt\<close>

text \<open>
  Claim C6. After a successful exchange whose handler returns no error and asks to
  continue, the loop state holds the handler's next address if that is non-empty and
  the address of the attempt just made if it is empty; the following attempt calls
  \<^verbatim>\<open>makeRequest\<close> with exactly that address, and a network call of that attempt goes
  to the same string.
\<close>

theorem next_address_applied:
  assumes "ctx_before a = None"
    and "fst (makeRequest c (currentURL s) a) = Inr resp"
    and "handler_result a = (nextURL, True, None)"
    and "ctx_after a = None"
    and "ctx_before b = None"
    and "url' = (if nextURL \<noteq> [] then nextURL else currentURL s)"
  shows "fst (iteration c s a) = Running \<lparr>retries = 0, currentURL = url'\<rparr>
       \<and> take 2 (targets (snd (pollLoop_from c s (a # b # rest)))) = [currentURL s, url']
       \<and> (\<forall>m u. Do m u \<in> set (snd (makeRequest c url' b)) \<longrightarrow> u = url')"
proof -
  let ?s' = "\<lparr>retries = 0, currentURL = url'\<rparr>"
  let ?tr = "snd (makeRequest c (currentURL s) a) @ [Handler, Close]"
  have it: "iteration c s a = (Running ?s', ?tr)"
    using iteration_success[OF assms(1,2,3)] assms(4,6) by simp
  obtain us where us: "targets (snd (pollLoop_from c ?s' (b # rest))) = currentURL ?s' # us"
    using targets_pollLoop_from_Cons[OF assms(5)] by blast
  have "targets (snd (pollLoop_from c s (a # b # rest))) = currentURL s # url' # us"
    unfolding pollLoop_from_Running[OF it] using us
    by (simp add: targets_append targets_makeRequest)
  then have "take 2 (targets (snd (pollLoop_from c s (a # b # rest)))) = [currentURL s, url']"
    by simp
  moreover have "\<forall>m u. Do m u \<in> set (snd (makeRequest c url' b)) \<longrightarrow> u = url'"
    using Do_makeRequest by blast
  ultimately show ?thesis using it by simp
qed

theorem next_address_applied_witness:
  "fst (iteration (NewWithConfig (retry_config 2)) \<lparr>retries = 1, currentURL = ''http://h/poll?offset=0''\<rparr>
         (status_200 (''http://h/poll?offset=7'', True, None)))
     = Running \<lparr>retries = 0, currentURL = ''http://h/poll?offset=7''\<rparr>
   \<and> pollLoop (NewWithConfig (retry_config 2)) ''http://h/poll?offset=0''
        [status_200 (''http://h/poll?offset=7'', True, None), status_200 ([], True, None),
         status_200 ([], False, None)]
     = (Returned None,
        [MakeRequest ''http://h/poll?offset=0'', Do ''GET'' ''http://h/poll?offset=0'', Recv 200, Handler, Close,
         MakeRequest ''http://h/poll?offset=7'', Do ''GET'' ''http://h/poll?offset=7'', Recv 200, Handler, Close,
         MakeRequest ''http://h/poll?offset=7'', Do ''GET'' ''http://h/poll?offset=7'', Recv 200, Handler, Close])"
proof -
  let ?c = "NewWithConfig (retry_config 2)"
  let ?s = "\<lparr>retries = 1, currentURL = ''http://h/poll?offset=0''\<rparr>"
  let ?a = "status_200 (''http://h/poll?offset=7'', True, None)"
  let ?b = "status_200 ([], True, None)"
  have h: "ctx_before ?a = None" "fst (makeRequest ?c (currentURL ?s) ?a) = Inr (200, ''{}'')"
      "handler_result ?a = (''http://h/poll?offset=7'', True, None)" "ctx_after ?a = None"
      "ctx_before ?b = None"
      "''http://h/poll?offset=7'' =
         (if ''http://h/poll?offset=7'' \<noteq> [] then ''http://h/poll?offset=7'' else currentURL ?s)"
    by (simp_all add: makeRequest_status_200[OF config_retry_config]) (simp_all add: status_200_def)
  have A: "fst (iteration ?c ?s ?a) = Running \<lparr>retries = 0, currentURL = ''http://h/poll?offset=7''\<rparr>"
    using next_address_applied[OF h] by blast
  have sel: "\<And>h. ctx_before (status_200 h) = None \<and> ctx_after (status_200 h) = None
      \<and> handler_result (status_200 h) = h"
    by (simp add: status_200_def)
  have B: "pollLoop ?c ''http://h/poll?offset=0'' [?a, ?b, status_200 ([], False, None)]
     = (Returned None,
        [MakeRequest ''http://h/poll?offset=0'', Do ''GET'' ''http://h/poll?offset=0'', Recv 200, Handler, Close,
         MakeRequest ''http://h/poll?offset=7'', Do ''GET'' ''http://h/poll?offset=7'', Recv 200, Handler, Close,
         MakeRequest ''http://h/poll?offset=7'', Do ''GET'' ''http://h/poll?offset=7'', Recv 200, Handler, Close])"
    by (simp add: pollLoop_def iteration_def makeRequest_status_200[OF config_retry_config] sel)
  show ?thesis using A B by blast
qed

text \<open>
  Claim C7. A pass whose exchange fails and which goes on to retry leaves the current
  address as it was, and the retried attempt is made to the address of the failed one.
  A pass after which the loop goes on with another address had a successful exchange
  and a handler that returned that address, non-empty, without error.
\<close>

theorem failure_keeps_address:
  "(fst (makeRequest c (currentURL s) a) = Inl err \<and> iteration c s a = (Running s', tr)
       \<longrightarrow> currentURL s' = currentURL s)
   \<and> (fst (makeRequest c (currentURL s) a) = Inl err \<and> iteration c s a = (Running s', tr)
       \<and> ctx_before b = None
       \<longrightarrow> take 2 (targets (snd (pollLoop_from c s (a # b # rest)))) = [currentURL s, currentURL s])
   \<and> (iteration c s a = (Running s', tr) \<and> currentURL s' \<noteq> currentURL s
       \<longrightarrow> (\<exists>resp. fst (makeRequest c (currentURL s) a) = Inr resp)
           \<and> handler_result a = (currentURL s', True, None) \<and> currentURL s' \<noteq> [])"
proof -
  have cb: "ctx_before a = None" if "iteration c s a = (Running s', tr)"
    using that by (cases "ctx_before a") (simp_all add: iteration_def)
  have A: "currentURL s' = currentURL s"
    if h: "fst (makeRequest c (currentURL s) a) = Inl err" "iteration c s a = (Running s', tr)"
    using iteration_failure[OF cb[OF h(2)] h(1)] h(2)
    by (auto split: if_splits option.splits)
  have B: "take 2 (targets (snd (pollLoop_from c s (a # b # rest)))) = [currentURL s, currentURL s]"
    if h: "fst (makeRequest c (currentURL s) a) = Inl err" "iteration c s a = (Running s', tr)"
       "ctx_before b = None"
  proof -
    obtain us where us: "targets (snd (pollLoop_from c s' (b # rest))) = currentURL s' # us"
      using targets_pollLoop_from_Cons[OF h(3)] by blast
    have "targets tr = [currentURL s]"
      using targets_iteration[OF cb[OF h(2)], of c s] h(2) by simp
    then have "targets (snd (pollLoop_from c s (a # b # rest))) = currentURL s # currentURL s' # us"
      unfolding pollLoop_from_Running[OF h(2)] using us by (simp add: targets_append)
    then show ?thesis using A[OF h(1,2)] by simp
  qed
  have C: "(\<exists>resp. fst (makeRequest c (currentURL s) a) = Inr resp)
           \<and> handler_result a = (currentURL s', True, None) \<and> currentURL s' \<noteq> []"
    if h: "iteration c s a = (Running s', tr)" "currentURL s' \<noteq> currentURL s"
  proof (cases "fst (makeRequest c (currentURL s) a)")
    case (Inl e)
    then show ?thesis
      using iteration_failure[OF cb[OF h(1)] Inl] h
      by (auto split: if_splits option.splits)
  next
    case (Inr resp)
    obtain nextURL shouldContinue herr where hr: "handler_result a = (nextURL, shouldContinue, herr)"
      by (cases "handler_result a") auto
    show ?thesis
    proof (cases herr)
      case None
      then show ?thesis
        using iteration_success[OF cb[OF h(1)] Inr, of nextURL shouldContinue] hr h Inr
        by (auto split: if_splits option.splits)
    next
      case (Some x)
      then show ?thesis
        using iteration_handler_error[OF cb[OF h(1)] Inr, of nextURL shouldContinue x] hr h
        by simp
    qed
  qed
  show ?thesis using A B C by blast
qed

theorem failure_keeps_address_witness:
  "pollLoop_from (NewWithConfig (retry_config 2)) \<lparr>retries = 0, currentURL = ''http://h/poll?offset=7''\<rparr>
      [status_500, status_500]
     = (Running \<lparr>retries = 2, currentURL = ''http://h/poll?offset=7''\<rparr>,
        [MakeRequest ''http://h/poll?offset=7'', Do ''GET'' ''http://h/poll?offset=7'', Recv 500, ReadAll, Close,
         After 50000000,
         MakeRequest ''http://h/poll?offset=7'', Do ''GET'' ''http://h/poll?offset=7'', Recv 500, ReadAll, Close,
         After 50000000])
   \<and> take 2 (targets (snd (pollLoop_from (NewWithConfig (retry_config 2))
        \<lparr>retries = 0, currentURL = ''http://h/poll?offset=7''\<rparr> [status_500, status_500])))
      = [''http://h/poll?offset=7'', ''http://h/poll?offset=7'']"
proof -
  let ?c = "NewWithConfig (retry_config 2)"
  let ?u = "''http://h/poll?offset=7''"
  let ?s = "\<lparr>retries = 0, currentURL = ?u\<rparr>"
  let ?tr = "[MakeRequest ?u, Do ''GET'' ?u, Recv 500, ReadAll, Close, After 50000000]"
  have mk: "fst (makeRequest ?c (currentURL ?s) status_500) = Inl (Errorf ''http error 500: boom'')"
    by (simp add: makeRequest_status_500[OF config_retry_config])
  have it: "iteration ?c ?s status_500 = (Running \<lparr>retries = 1, currentURL = ?u\<rparr>, ?tr)"
    by (simp add: iteration_status_500[OF config_retry_config] word_sle_eq)
  have cb: "ctx_before status_500 = None"
    by (simp add: status_500_def)
  have A: "take 2 (targets (snd (pollLoop_from ?c ?s [status_500, status_500]))) = [?u, ?u]"
    using failure_keeps_address[of ?c ?s status_500 "Errorf ''http error 500: boom''"
        "\<lparr>retries = 1, currentURL = ?u\<rparr>" ?tr status_500 "[]"] mk it cb
    by simp
  have B: "pollLoop_from ?c ?s [status_500, status_500]
     = (Running \<lparr>retries = 2, currentURL = ?u\<rparr>, ?tr @ ?tr)"
    by (simp add: iteration_status_500[OF config_retry_config] word_sle_eq)
  show ?thesis using A B by simp
qed

subsection \<open>Responses outside the success range, and response bodies\<close>

text \<open>
  Claim C9. An exchange that completes with a status code outside \<open>[200, 300)\<close> makes
  \<^verbatim>\<open>makeRequest\<close> return the error \<^verbatim>\<open>http error <status>: <body>\<close>, whose message ends
  with the bytes read from the response body. The pass never calls the handler and
  treats the attempt like any failure: it returns \<^verbatim>\<open>max retries exceeded\<close> wrapping that
  error when the budget is spent, and otherwise counts the failure and waits for the
  retry delay.
\<close>

theorem non_success_status_fails:
  assumes "do_result a = Response status body"
    and "status < 200 \<or> 300 \<le> status"
    and "\<not> BodyBuilder (config c) \<or> body_builder a = None"
    and "new_request a = None"
    and "ctx_before a = None"
    and "err = Errorf (''http error '' @ itoa status @ '': '' @ body)"
  shows "fst (makeRequest c (currentURL s) a) = Inl err
       \<and> Handler \<notin> set (snd (iteration c s a))
       \<and> fst (iteration c s a) =
           (if 0 \<le>s MaxRetries (config c) \<and> MaxRetries (config c) \<le>s retries s
            then Returned (Some (Wrapf ''max retries exceeded'' err))
            else (case ctx_sleep a of
                    Some e \<Rightarrow> Returned (Some e)
                  | None \<Rightarrow> Running (s\<lparr>retries := retries s + 1\<rparr>)))
       \<and> Error err = ''http error '' @ itoa status @ '': '' @ body
       \<and> Error (Wrapf ''max retries exceeded'' err) =
           ''max retries exceeded: http error '' @ itoa status @ '': '' @ body"
proof -
  have mk: "fst (makeRequest c (currentURL s) a) = Inl err"
    using makeRequest_non_success[OF assms(1-4), of "currentURL s"] assms(6) by simp
  note it = iteration_failure[OF assms(5) mk]
  have "Handler \<notin> set (snd (iteration c s a))"
    using Handler_makeRequest[of c "currentURL s" a] by (simp add: it split: option.splits)
  moreover have "fst (iteration c s a) =
           (if 0 \<le>s MaxRetries (config c) \<and> MaxRetries (config c) \<le>s retries s
            then Returned (Some (Wrapf ''max retries exceeded'' err))
            else (case ctx_sleep a of
                    Some e \<Rightarrow> Returned (Some e)
                  | None \<Rightarrow> Running (s\<lparr>retries := retries s + 1\<rparr>)))"
    by (simp add: it)
  ultimately show ?thesis
    using mk assms(6) by simp
qed

theorem non_success_status_fails_witness:
  "fst (makeRequest (NewWithConfig (retry_config 2)) ''http://h/poll'' status_500)
     = Inl (Errorf ''http error 500: boom'')
   \<and> fst (iteration (NewWithConfig (retry_config 2)) \<lparr>retries = 2, currentURL = ''http://h/poll''\<rparr> status_500)
     = Returned (Some (Wrapf ''max retries exceeded'' (Errorf ''http error 500: boom'')))
   \<and> fst (iteration (NewWithConfig (retry_config 2)) \<lparr>retries = 1, currentURL = ''http://h/poll''\<rparr> status_500)
     = Running \<lparr>retries = 2, currentURL = ''http://h/poll''\<rparr>
   \<and> Error (Wrapf ''max retries exceeded'' (Errorf ''http error 500: boom''))
     = ''max retries exceeded: http error 500: boom''"
proof -
  let ?c = "NewWithConfig (retry_config 2)"
  have h: "do_result status_500 = Response 500 ''boom''" "(500::int) < 200 \<or> (300::int) \<le> 500"
      "\<not> BodyBuilder (config ?c) \<or> body_builder status_500 = None"
      "new_request status_500 = None" "ctx_before status_500 = None"
      "Errorf ''http error 500: boom'' = Errorf (''http error '' @ itoa 500 @ '': '' @ ''boom'')"
    by (simp_all add: status_500_def config_retry_config itoa_500)
  note t2 = non_success_status_fails[OF h, of "\<lparr>retries = 2, currentURL = ''http://h/poll''\<rparr>"]
  note t1 = non_success_status_fails[OF h, of "\<lparr>retries = 1, currentURL = ''http://h/poll''\<rparr>"]
  have cs: "ctx_sleep status_500 = None" by (simp add: status_500_def)
  have A: "fst (makeRequest ?c ''http://h/poll'' status_500) = Inl (Errorf ''http error 500: boom'')"
    using t2 by simp
  have B: "fst (iteration ?c \<lparr>retries = 2, currentURL = ''http://h/poll''\<rparr> status_500)
     = Returned (Some (Wrapf ''max retries exceeded'' (Errorf ''http error 500: boom'')))"
    using t2 by (simp add: config_retry_config word_sle_eq)
  have C: "fst (iteration ?c \<lparr>retries = 1, currentURL = ''http://h/poll''\<rparr> status_500)
     = Running \<lparr>retries = 2, currentURL = ''http://h/poll''\<rparr>"
    using t1 cs by (simp add: config_retry_config word_sle_eq)
  have D: "Error (Wrapf ''max retries exceeded'' (Errorf ''http error 500: boom''))
     = ''max retries exceeded: http error 500: boom''"
    by simp
  show ?thesis using A B C D by blast
qed

text \<open>
  Claim C10. In every run of the loop each response body that arrives is closed before
  the next attempt starts and before the loop returns, the handler only ever runs on an
  open body. On a successful exchange the pass ends with the handler call followed by
  \<^verbatim>\<open>Close\<close>, whether the handler returns an error or not; on a status outside
  \<open>[200, 300)\<close> \<^verbatim>\<open>makeRequest\<close> reads the body and closes it before it returns its
  error.
\<close>

theorem bodies_released:
  "released False (snd (pollLoop_from c s script))
   \<and> (ctx_before a = None \<and> fst (makeRequest c (currentURL s) a) = Inr resp \<longrightarrow>
        (\<exists>pre. snd (iteration c s a) = pre @ [Recv (fst resp), Handler, Close]))
   \<and> (new_request a = None \<and> (\<not> BodyBuilder (config c) \<or> body_builder a = None)
        \<and> do_result a = Response status body \<and> (status < 200 \<or> 300 \<le> status) \<longrightarrow>
        isl (fst (makeRequest c url a))
        \<and> (\<exists>pre. snd (makeRequest c url a) = pre @ [Recv status, ReadAll, Close]))"
proof -
  have B: "\<exists>pre. snd (iteration c s a) = pre @ [Recv (fst resp), Handler, Close]"
    if h: "ctx_before a = None" "fst (makeRequest c (currentURL s) a) = Inr resp"
  proof -
    obtain pre where pre: "snd (makeRequest c (currentURL s) a) = pre @ [Recv (fst resp)]"
      using makeRequest_success_trace[OF h(2)] by blast
    obtain nextURL shouldContinue herr where hr: "handler_result a = (nextURL, shouldContinue, herr)"
      by (cases "handler_result a") auto
    have "snd (iteration c s a) = snd (makeRequest c (currentURL s) a) @ [Handler, Close]"
    proof (cases herr)
      case None
      then show ?thesis using iteration_success[OF h, of nextURL shouldContinue] hr by simp
    next
      case (Some x)
      then show ?thesis using iteration_handler_error[OF h, of nextURL shouldContinue x] hr by simp
    qed
    then show ?thesis using pre by simp
  qed
  have C: "isl (fst (makeRequest c url a))
        \<and> (\<exists>pre. snd (makeRequest c url a) = pre @ [Recv status, ReadAll, Close])"
    if h: "new_request a = None" "\<not> BodyBuilder (config c) \<or> body_builder a = None"
       "do_result a = Response status body" "status < 200 \<or> 300 \<le> status"
    by (simp add: makeRequest_non_success[OF h(3,4,2,1)])
  show ?thesis
    using released_pollLoop_from B C by blast
qed

theorem bodies_released_witness:
  "released False (snd (pollLoop (NewWithConfig (retry_config 2)) ''http://h/poll''
      [status_500, status_200 ([], True, None), status_200 ([], True, Some (Opaque ''bad json''))]))
   \<and> snd (iteration (NewWithConfig (retry_config 2)) \<lparr>retries = 0, currentURL = ''http://h/poll''\<rparr>
          (status_200 ([], True, Some (Opaque ''bad json''))))
       = [MakeRequest ''http://h/poll'', Do ''GET'' ''http://h/poll''] @ [Recv 200, Handler, Close]
   \<and> isl (fst (makeRequest (NewWithConfig (retry_config 2)) ''http://h/poll'' status_500))
   \<and> snd (makeRequest (NewWithConfig (retry_config 2)) ''http://h/poll'' status_500)
       = [MakeRequest ''http://h/poll'', Do ''GET'' ''http://h/poll''] @ [Recv 500, ReadAll, Close]"
proof -
  let ?c = "NewWithConfig (retry_config 2)"
  let ?s = "\<lparr>retries = 0, currentURL = ''http://h/poll''\<rparr>"
  let ?bad = "status_200 ([], True, Some (Opaque ''bad json''))"
  let ?script = "[status_500, status_200 ([], True, None), ?bad]"
  note t = bodies_released[of ?c ?s ?script ?bad "(200, ''{}'')" 500 "''boom''" "''http://h/poll''"]
  note t' = bodies_released[of ?c ?s ?script status_500 "(200, ''{}'')" 500 "''boom''" "''http://h/poll''"]
  have h: "ctx_before ?bad = None" "fst (makeRequest ?c (currentURL ?s) ?bad) = Inr (200, ''{}'')"
      "handler_result ?bad = ([], True, Some (Opaque ''bad json''))"
    by (simp_all add: makeRequest_status_200[OF config_retry_config]) (simp_all add: status_200_def)
  have g: "new_request status_500 = None" "\<not> BodyBuilder (config ?c) \<or> body_builder status_500 = None"
      "do_result status_500 = Response 500 ''boom''" "(500::int) < 200 \<or> (300::int) \<le> 500"
    by (simp_all add: status_500_def config_retry_config)
  have A: "released False (snd (pollLoop ?c ''http://h/poll'' ?script))"
    using t unfolding pollLoop_def by blast
  have "\<exists>pre. snd (iteration ?c ?s ?bad) = pre @ [Recv (fst (200::int, ''{}'')), Handler, Close]"
    using t h(1,2) by blast
  then have B: "snd (iteration ?c ?s ?bad)
       = [MakeRequest ''http://h/poll'', Do ''GET'' ''http://h/poll''] @ [Recv 200, Handler, Close]"
    using iteration_handler_error[OF h] by (simp add: makeRequest_status_200[OF config_retry_config])
  have "isl (fst (makeRequest ?c ''http://h/poll'' status_500))
        \<and> (\<exists>pre. snd (makeRequest ?c ''http://h/poll'' status_500) = pre @ [Recv 500, ReadAll, Close])"
    using t' g by blast
  then have C: "isl (fst (makeRequest ?c ''http://h/poll'' status_500))
     \<and> snd (makeRequest ?c ''http://h/poll'' status_500)
       = [MakeRequest ''http://h/poll'', Do ''GET'' ''http://h/poll''] @ [Recv 500, ReadAll, Close]"
    by (simp add: makeRequest_status_500[OF config_retry_config])
  show ?thesis using A B C by blast
qed

subsection \<open>The registry\<close>

text \<open>
  Claim C8. \<^verbatim>\<open>Poll\<close> runs the loop of \<^verbatim>\<open>pollLoop\<close> unchanged. Its \<^verbatim>\<open>pollContext\<close> is in
  \<^verbatim>\<open>c.active\<close> while the loop is running, and once the loop has returned, for
  whatever reason, \<^verbatim>\<open>c.active\<close> is what it was before the call. For sessions running
  side by side on a client that started with an empty registry: after any history
  that can occur, the registry holds exactly the sessions that have registered and
  whose loop has not yet returned and been deregistered, and \<^verbatim>\<open>ActiveCount\<close> is the
  number of sessions started minus the number that have returned.
\<close>

theorem registry_tracks_sessions:
  "snd (Poll c pc url script) = pollLoop c url script
   \<and> (pc \<notin> active c \<longrightarrow>
        (case Poll c pc url script of
           (c', Running s, tr) \<Rightarrow> active c' = insert pc (active c)
         | (c', Returned r, tr) \<Rightarrow> active c' = active c))
   \<and> (active c = {} \<and> possible [] evs \<longrightarrow>
        (\<forall>q. q \<in> active (run_events c evs) \<longleftrightarrow> Enter q \<in> set evs \<and> Leave q \<notin> set evs)
        \<and> ActiveCount (run_events c evs) + returned evs = started evs)"
proof -
  have same: "pollLoop (register c pc) url script = pollLoop c url script"
    by (simp add: pollLoop_def register_def pollLoop_from_active)
  have P: "Poll c pc url script =
      (case pollLoop c url script of
         (Running s, tr) \<Rightarrow> (register c pc, Running s, tr)
       | (Returned r, tr) \<Rightarrow> (deregister (register c pc) pc, Returned r, tr))"
    by (simp add: Poll_def Let_def same)
  have A: "snd (Poll c pc url script) = pollLoop c url script"
    unfolding P by (simp split: prod.splits status.splits)
  have B: "(case Poll c pc url script of
           (c', Running s, tr) \<Rightarrow> active c' = insert pc (active c)
         | (c', Returned r, tr) \<Rightarrow> active c' = active c)"
    if "pc \<notin> active c"
    unfolding P using that
    by (simp add: register_def deregister_def split: prod.splits status.splits)
  have C: "(\<forall>q. q \<in> active (run_events c evs) \<longleftrightarrow> Enter q \<in> set evs \<and> Leave q \<notin> set evs)
        \<and> ActiveCount (run_events c evs) + returned evs = started evs"
    if h: "active c = {}" "possible [] evs"
  proof -
    have inv: "active (run_events c evs) =
           {pc. Enter pc \<in> set ([] @ evs) \<and> Leave pc \<notin> set ([] @ evs)}
       \<and> card (active (run_events c evs)) + returned ([] @ evs) = started ([] @ evs)"
      by (rule run_events_invariant) (use h in simp_all)
    have i1: "active (run_events c evs) = {pc. Enter pc \<in> set evs \<and> Leave pc \<notin> set evs}"
      using conjunct1[OF inv] by (simp only: append_Nil)
    have i2: "card (active (run_events c evs)) + returned evs = started evs"
      using conjunct2[OF inv] by (simp only: append_Nil)
    have "\<forall>q. q \<in> active (run_events c evs) \<longleftrightarrow> Enter q \<in> set evs \<and> Leave q \<notin> set evs"
      unfolding i1 by simp
    then show ?thesis
      using i2 by (simp add: ActiveCount_def)
  qed
  show ?thesis using A B C by blast
qed

theorem registry_tracks_sessions_witness:
  "active (run_events (NewWithConfig (retry_config 2)) [Enter 4, Enter 5, Enter 6, Leave 5]) = {4, 6}
   \<and> ActiveCount (run_events (NewWithConfig (retry_config 2)) [Enter 4, Enter 5, Enter 6, Leave 5]) = 2
   \<and> active (fst (Poll (NewWithConfig (retry_config 2)) 4 ''http://h/poll'' [status_500])) = {4}
   \<and> active (fst (Poll (NewWithConfig (retry_config 2)) 4 ''http://h/poll''
        [status_200 ([], False, None)])) = {}"
proof -
  let ?c = "NewWithConfig (retry_config 2)"
  let ?evs = "[Enter 4, Enter 5, Enter 6, Leave 5]"
  have e: "active ?c = {}"
    by (simp add: NewWithConfig_def Let_def)
  have p: "possible [] ?evs"
    by simp
  have n: "(4::nat) \<notin> active ?c"
    using e by simp
  note t = registry_tracks_sessions[of ?c 4 "''http://h/poll''" "[status_500]" ?evs]
  note t' = registry_tracks_sessions[of ?c 4 "''http://h/poll''" "[status_200 ([], False, None)]" ?evs]
  have "\<forall>q. q \<in> active (run_events ?c ?evs) \<longleftrightarrow> Enter q \<in> set ?evs \<and> Leave q \<notin> set ?evs"
    using t e p by blast
  then have A: "active (run_events ?c ?evs) = {4, 6}"
    by (intro set_eqI) (simp, presburger)
  have "ActiveCount (run_events ?c ?evs) + returned ?evs = started ?evs"
    using t e p by blast
  then have B: "ActiveCount (run_events ?c ?evs) = 2"
    by simp
  have r1: "fst (pollLoop ?c ''http://h/poll'' [status_500])
      = Running \<lparr>retries = 1, currentURL = ''http://h/poll''\<rparr>"
    by (simp add: pollLoop_def iteration_status_500[OF config_retry_config] word_sle_eq)
  have h: "ctx_before (status_200 ([], False, None)) = None"
      "fst (makeRequest ?c ''http://h/poll'' (status_200 ([], False, None))) = Inr (200, ''{}'')"
      "handler_result (status_200 ([], False, None)) = ([], False, None)"
    by (simp_all add: makeRequest_status_200[OF config_retry_config]) (simp_all add: status_200_def)
  have r2: "fst (pollLoop ?c ''http://h/poll'' [status_200 ([], False, None)]) = Returned None"
    using iteration_success[of "status_200 ([], False, None)" ?c
        "\<lparr>retries = 0, currentURL = ''http://h/poll''\<rparr>" "(200, ''{}'')" "[]" False] h
    by (simp add: pollLoop_def)
  have C: "active (fst (Poll ?c 4 ''http://h/poll'' [status_500])) = {4}"
  proof -
    obtain c' st tr where P: "Poll ?c 4 ''http://h/poll'' [status_500] = (c', st, tr)"
      by (cases "Poll ?c 4 ''http://h/poll'' [status_500]") auto
    have "fst (snd (Poll ?c 4 ''http://h/poll'' [status_500]))
        = Running \<lparr>retries = 1, currentURL = ''http://h/poll''\<rparr>"
      unfolding conjunct1[OF t] by (rule r1)
    then have st: "st = Running \<lparr>retries = 1, currentURL = ''http://h/poll''\<rparr>"
      by (simp add: P)
    have "case Poll ?c 4 ''http://h/poll'' [status_500] of
           (c', Running s, tr) \<Rightarrow> active c' = insert 4 (active ?c)
         | (c', Returned r, tr) \<Rightarrow> active c' = active ?c"
      using conjunct1[OF conjunct2[OF t]] n by (rule mp)
    then show ?thesis
      by (simp add: P st e)
  qed
  have D: "active (fst (Poll ?c 4 ''http://h/poll'' [status_200 ([], False, None)])) = {}"
  proof -
    obtain c' st tr where P: "Poll ?c 4 ''http://h/poll'' [status_200 ([], False, None)] = (c', st, tr)"
      by (cases "Poll ?c 4 ''http://h/poll'' [status_200 ([], False, None)]") auto
    have "fst (snd (Poll ?c 4 ''http://h/poll'' [status_200 ([], False, None)])) = Returned None"
      unfolding conjunct1[OF t'] by (rule r2)
    then have st: "st = Returned None"
      by (simp add: P)
    have "case Poll ?c 4 ''http://h/poll'' [status_200 ([], False, None)] of
           (c', Running s, tr) \<Rightarrow> active c' = insert 4 (active ?c)
         | (c', Returned r, tr) \<Rightarrow> active c' = active ?c"
      using conjunct1[OF conjunct2[OF t']] n by (rule mp)
    then show ?thesis
      by (simp add: P st e)
  qed
  show ?thesis using A B C D by blast
qed

end
